theory Spec2Isabelle
  imports Main
begin

text \<open>
  A model of the server-side rendering payload: the tree of \<^verbatim>\<open>string | Payload\<close>
  entries with its two collectors, compaction and \<^verbatim>\<open>subsume\<close>, and the tree-wide state
  (TreeState, TreeHeadState) with the title slot and the stylesheet set.
\<close>

section \<open>Title resolution (TreeHeadState)\<close>

text \<open>
  The title slot holds \<^verbatim>\<open>{ path: number[], value: string }\<close>. Paths come from
  \<^verbatim>\<open>get_path\<close>, whose segments are results of \<^verbatim>\<open>indexOf\<close>, so a segment
  is an integer. Reading a JavaScript array past its end gives \<^verbatim>\<open>undefined\<close>; the
  model tests the index against the length where the source tests for \<^verbatim>\<open>undefined\<close>.
\<close>

record Title =
  path :: "int list"
  tvalue :: string

text \<open>
  The loop of the title setter, started at index \<open>i\<close>. The result says whether the
  setter assigns: \<open>True\<close> is the branch that stores the contender, \<open>False\<close> is
  every \<^verbatim>\<open>return\<close> that leaves the slot alone, and falling out of the loop.
\<close>

function title_loop :: "int list \<Rightarrow> int list \<Rightarrow> nat \<Rightarrow> bool" where
  "title_loop contender_path current_path i =
     (if i < max (length contender_path) (length current_path) then
        (if \<not> i < length contender_path then False
         else if \<not> i < length current_path \<or> contender_path ! i > current_path ! i then True
         else if contender_path ! i < current_path ! i then False
         else title_loop contender_path current_path (Suc i))
      else False)"
  by pat_completeness auto
termination
  by (relation "measure (\<lambda>(c, s, i). max (length c) (length s) - i)") auto

declare title_loop.simps [simp del]

text \<open>The setter's effect on the title object: it is updated in place, field by field.\<close>

definition set_title :: "Title \<Rightarrow> Title \<Rightarrow> Title" where
  "set_title current v =
     (if title_loop (path v) (path current) 0
      then current\<lparr>path := path v, tvalue := tvalue v\<rparr>
      else current)"

text \<open>The slot of a new TreeHeadState, and a sequence of assignments in arrival order.\<close>

definition initial_title :: Title where
  "initial_title = \<lparr>path = [], tvalue = []\<rparr>"

definition set_titles :: "Title \<Rightarrow> Title list \<Rightarrow> Title" where
  "set_titles current vs = foldl set_title current vs"

section \<open>Objects shared by reference\<close>

text \<open>
  TreeState, TreeHeadState, the title record, the \<^verbatim>\<open>Set\<close> of stylesheets and the id
  generator are JavaScript objects: a field holds a reference, and two fields may hold
  the same one. The store maps addresses to objects; \<open>fresh\<close> is the next unused address.
  A \<^verbatim>\<open>Set\<close> of objects compares its members by reference (SameValueZero) and keeps
  insertion order, so it is a duplicate-free list of addresses. \<open>GenObj prefix uid\<close> is
  the closure that \<^verbatim>\<open>props_id_generator\<close> returns, with its counter.
\<close>

type_synonym addr = nat

record Style =
  hash :: string
  code :: string

datatype obj =
    TitleObj Title
  | StyleObj Style
  | SetObj "addr list"
  | GenObj string nat
  | HeadObj (h_css: addr) (h_uid: addr) (h_title: addr)
  | StateObj (s_uid: addr) (s_css: addr) (s_head: addr)

record heap =
  cells :: "addr \<Rightarrow> obj option"
  fresh :: addr

definition empty_heap :: heap where
  "empty_heap = \<lparr>cells = (\<lambda>_. None), fresh = 0\<rparr>"

definition alloc :: "heap \<Rightarrow> obj \<Rightarrow> addr \<times> heap" where
  "alloc h v = (fresh h, h\<lparr>cells := (cells h)(fresh h \<mapsto> v), fresh := Suc (fresh h)\<rparr>)"

definition store :: "heap \<Rightarrow> addr \<Rightarrow> obj \<Rightarrow> heap" where
  "store h a v = h\<lparr>cells := (cells h)(a \<mapsto> v)\<rparr>"

subsection \<open>The built-in Set\<close>

text \<open>\<^verbatim>\<open>Set.prototype.add\<close>, the members in insertion order, and \<^verbatim>\<open>new Set(iterable)\<close>.\<close>

definition add_member :: "addr list \<Rightarrow> addr \<Rightarrow> addr list" where
  "add_member xs x = (if x \<in> set xs then xs else xs @ [x])"

definition Set_add :: "heap \<Rightarrow> addr \<Rightarrow> addr \<Rightarrow> heap" where
  "Set_add h s x =
     (case cells h s of
        Some (SetObj xs) \<Rightarrow> store h s (SetObj (add_member xs x))
      | _ \<Rightarrow> h)"

definition Set_members :: "heap \<Rightarrow> addr \<Rightarrow> addr list" where
  "Set_members h s = (case cells h s of Some (SetObj xs) \<Rightarrow> xs | _ \<Rightarrow> [])"

definition new_Set :: "heap \<Rightarrow> addr list \<Rightarrow> addr \<times> heap" where
  "new_Set h xs = alloc h (SetObj (foldl add_member [] xs))"

subsection \<open>TreeHeadState\<close>

text \<open>
  The constructor body: a new \<^verbatim>\<open>Set\<close>, a new title record and the given generator.
  (The field initialisers allocate a set, a closure and a title record that the
  constructor body replaces at once; nothing can reach them, and they are left out.)
\<close>

definition new_TreeHeadState :: "heap \<Rightarrow> addr \<Rightarrow> addr \<times> heap" where
  "new_TreeHeadState h uid =
     (let (c, h1) = new_Set h [];
          (t, h2) = alloc h1 (TitleObj initial_title)
      in alloc h2 (HeadObj c uid t))"

text \<open>
  The getter \<^verbatim>\<open>get title()\<close> returns the title record itself, that is, a reference;
  \<open>read_title\<close> reads the record behind it.
\<close>

definition TreeHeadState_title :: "heap \<Rightarrow> addr \<Rightarrow> addr option" where
  "TreeHeadState_title h a = (case cells h a of Some (HeadObj c u t) \<Rightarrow> Some t | _ \<Rightarrow> None)"

definition read_title :: "heap \<Rightarrow> addr \<Rightarrow> Title option" where
  "read_title h a =
     (case TreeHeadState_title h a of
        Some t \<Rightarrow> (case cells h t of Some (TitleObj ti) \<Rightarrow> Some ti | _ \<Rightarrow> None)
      | None \<Rightarrow> None)"

text \<open>
  The setter \<^verbatim>\<open>set title(value)\<close>: it assigns to the fields of the record that
  \<^verbatim>\<open>#title\<close> refers to; the reference itself stays.
\<close>

definition TreeHeadState_set_title :: "heap \<Rightarrow> addr \<Rightarrow> Title \<Rightarrow> heap" where
  "TreeHeadState_set_title h a v =
     (case cells h a of
        Some (HeadObj c u t) \<Rightarrow>
          (case cells h t of
             Some (TitleObj current) \<Rightarrow> store h t (TitleObj (set_title current v))
           | _ \<Rightarrow> h)
      | _ \<Rightarrow> h)"

definition TreeHeadState_copy :: "heap \<Rightarrow> addr \<Rightarrow> (addr \<times> heap) option" where
  "TreeHeadState_copy h a =
     (case cells h a of
        Some (HeadObj c u t) \<Rightarrow>
          (let (head_state, h1) = new_TreeHeadState h u;
               (c', h2) = new_Set h1 (Set_members h1 c)
           in (case cells h2 head_state of
                 Some (HeadObj _ u' _) \<Rightarrow> Some (head_state, store h2 head_state (HeadObj c' u' t))
               | _ \<Rightarrow> None))
      | _ \<Rightarrow> None)"

definition TreeHeadState_subsume :: "heap \<Rightarrow> addr \<Rightarrow> addr \<Rightarrow> heap" where
  "TreeHeadState_subsume h a other =
     (case (cells h a, cells h other) of
        (Some (HeadObj _ _ _), Some (HeadObj c u t)) \<Rightarrow> store h a (HeadObj c u t)
      | _ \<Rightarrow> h)"

subsection \<open>TreeState\<close>

definition props_id_generator :: "heap \<Rightarrow> string \<Rightarrow> addr \<times> heap" where
  "props_id_generator h prefix = alloc h (GenObj prefix 1)"

definition new_TreeState :: "heap \<Rightarrow> string \<Rightarrow> addr \<times> heap" where
  "new_TreeState h id_prefix =
     (let (uid, h1) = props_id_generator h id_prefix;
          (css, h2) = new_Set h1 [];
          (hs, h3) = new_TreeHeadState h2 uid
      in alloc h3 (StateObj uid css hs))"

definition TreeState_css :: "heap \<Rightarrow> addr \<Rightarrow> addr option" where
  "TreeState_css h a = (case cells h a of Some (StateObj u c hs) \<Rightarrow> Some c | _ \<Rightarrow> None)"

definition TreeState_head :: "heap \<Rightarrow> addr \<Rightarrow> addr option" where
  "TreeState_head h a = (case cells h a of Some (StateObj u c hs) \<Rightarrow> Some hs | _ \<Rightarrow> None)"

definition TreeState_copy :: "heap \<Rightarrow> addr \<Rightarrow> (addr \<times> heap) option" where
  "TreeState_copy h a =
     (case cells h a of
        Some (StateObj u c hs) \<Rightarrow>
          (let (state, h1) = new_TreeState h [];
               (c', h2) = new_Set h1 (Set_members h1 c)
           in (case TreeHeadState_copy h2 hs of
                 Some (hs', h3) \<Rightarrow> Some (state, store h3 state (StateObj u c' hs'))
               | None \<Rightarrow> None))
      | _ \<Rightarrow> None)"

definition TreeState_subsume :: "heap \<Rightarrow> addr \<Rightarrow> addr \<Rightarrow> heap" where
  "TreeState_subsume h a other =
     (case (cells h a, cells h other) of
        (Some (StateObj _ _ hs), Some (StateObj u' c' hs')) \<Rightarrow>
          TreeHeadState_subsume (store h a (StateObj u' c' hs)) hs hs'
      | _ \<Rightarrow> h)"

text \<open>
  Pushing a stylesheet record is \<^verbatim>\<open>state.css.add(record)\<close>: the getter returns the set,
  and the set's own \<^verbatim>\<open>add\<close> inserts the reference.
\<close>

definition css_add :: "heap \<Rightarrow> addr \<Rightarrow> addr \<Rightarrow> heap" where
  "css_add h state x = (case TreeState_css h state of Some s \<Rightarrow> Set_add h s x | None \<Rightarrow> h)"

definition css_entries :: "heap \<Rightarrow> addr \<Rightarrow> addr list" where
  "css_entries h state = (case TreeState_css h state of Some s \<Rightarrow> Set_members h s | None \<Rightarrow> [])"

definition entries_with_hash :: "heap \<Rightarrow> addr \<Rightarrow> string \<Rightarrow> addr list" where
  "entries_with_hash h state k =
     filter (\<lambda>x. case cells h x of Some (StyleObj st) \<Rightarrow> hash st = k | _ \<Rightarrow> False)
       (css_entries h state)"

section \<open>Payload\<close>

subsection \<open>Data\<close>

datatype PayloadType = Head | Body

record AccumulatedContent =
  head :: string
  body :: string

text \<open>
  Time is logical: a natural number, with \<open>0\<close> the moment of the call that is being
  modelled. A \<^verbatim>\<open>Promise<void>\<close> is the time at which it settles and whether it is
  fulfilled or rejected then. \<^verbatim>\<open>MaybePromise<T>\<close> is a plain value, a promise that
  is fulfilled with a value at a time, or a promise that is rejected at a time.
\<close>

datatype promise = Fulfils nat | Rejects nat

datatype 'a MaybePromise = Now 'a | Promise nat 'a | Rejected nat

text \<open>
  A payload holds its entries \<open>out\<close> (\<^verbatim>\<open>#out\<close>, as it is now), its
  \<^verbatim>\<open>type\<close>, and \<^verbatim>\<open>promises\<close>: \<open>initial\<close> is the promise of its render
  function (\<open>None\<close> for \<^verbatim>\<open>undefined\<close>), \<open>followup\<close> the promises that
  \<^verbatim>\<open>compact\<close> queued. The work behind those promises appends to \<^verbatim>\<open>#out\<close> after
  the present moment: \<open>later\<close> lists, in the order of appending, what will be appended
  and when; an entry of \<open>later\<close> with time \<open>0\<close> is appended after the synchronous call
  that is being modelled has returned. \<open>plocal\<close> is \<^verbatim>\<open>local.select_value\<close> and
  \<open>pglobal\<close> the reference to the shared TreeState. The \<^verbatim>\<open>parent\<close> reference is
  the nesting of the tree.
\<close>

datatype item = Str string | Node payload
and payload =
  Payload (out: "item list") (ptype: PayloadType) (initial: "promise option")
    (followup: "promise list option") (later: "(nat \<times> item list) list")
    (plocal: "string option") (pglobal: addr)

text \<open>\<^verbatim>\<open>#out\<close> as a reader finds it at time \<open>t\<close>.\<close>

definition entries_at :: "payload \<Rightarrow> nat \<Rightarrow> item list" where
  "entries_at n t = out n @ concat (map snd (takeWhile (\<lambda>(s, _). s \<le> t) (later n)))"

subsection \<open>Construction, push and child\<close>

text \<open>
  The constructor, with the default of \<^verbatim>\<open>type ?? parent?.type ?? 'body'\<close>. The
  defaults of \<^verbatim>\<open>global\<close> and \<^verbatim>\<open>local\<close> are supplied by \<open>new_root\<close>.
\<close>

definition new_Payload ::
  "addr \<Rightarrow> string option \<Rightarrow> payload option \<Rightarrow> PayloadType option \<Rightarrow> payload" where
  "new_Payload global_state local_state parent type_arg =
     Payload [] (case type_arg of
                   Some ty \<Rightarrow> ty
                 | None \<Rightarrow> (case parent of Some p \<Rightarrow> ptype p | None \<Rightarrow> Body))
       None None [] local_state global_state"

definition new_root :: "heap \<Rightarrow> payload \<times> heap" where
  "new_root h = (let (g, h1) = new_TreeState h [] in (new_Payload g None None None, h1))"

definition push :: "payload \<Rightarrow> string \<Rightarrow> payload" where
  "push this content =
     Payload (out this @ [Str content]) (ptype this) (initial this) (followup this)
       (later this) (plocal this) (pglobal this)"

text \<open>
  \<^verbatim>\<open>child(render, type)\<close>. A render function receives the new child and fills it;
  the model's \<open>render\<close> returns the child as the call leaves it (with, in \<open>later\<close>,
  what an asynchronous render appends after it has suspended) and the promise it
  returned, if it returned one.
\<close>

definition child ::
  "payload \<Rightarrow> (payload \<Rightarrow> payload \<times> promise option) \<Rightarrow> PayloadType option \<Rightarrow> payload" where
  "child this render type_arg =
     (let c = new_Payload (pglobal this) (plocal this) (Some this) type_arg;
          (c', result) = render c;
          c'' = (case result of
                   Some p \<Rightarrow> Payload (out c') (ptype c') (Some p) (followup c') (later c')
                               (plocal c') (pglobal c')
                 | None \<Rightarrow> c')
      in Payload (out this @ [Node c'']) (ptype this) (initial this) (followup this)
           (later this) (plocal this) (pglobal this))"

subsection \<open>Collecting\<close>

definition empty_content :: AccumulatedContent where
  "empty_content = \<lparr>head = [], body = []\<rparr>"

text \<open>\<^verbatim>\<open>content[current_type] += item\<close>\<close>

definition append_content :: "PayloadType \<Rightarrow> string \<Rightarrow> AccumulatedContent \<Rightarrow> AccumulatedContent" where
  "append_content current_type s content =
     (case current_type of
        Head \<Rightarrow> content\<lparr>head := head content @ s\<rparr>
      | Body \<Rightarrow> content\<lparr>body := body content @ s\<rparr>)"

definition squash_step :: "AccumulatedContent \<Rightarrow> AccumulatedContent \<Rightarrow> AccumulatedContent" where
  "squash_step acc content = acc\<lparr>head := head acc @ head content, body := body acc @ body content\<rparr>"

definition squash_accumulated_content :: "AccumulatedContent list \<Rightarrow> AccumulatedContent" where
  "squash_accumulated_content content_array = foldl squash_step empty_content content_array"

text \<open>
  Awaiting a promise at time \<open>t\<close>: \<open>Inr\<close> is the time at which the function resumes,
  \<open>Inl\<close> the time at which \<^verbatim>\<open>await\<close> throws because the promise is rejected.
  \<open>await_promises\<close> is what \<^verbatim>\<open>#collect_content_async\<close> awaits at a payload:
  \<^verbatim>\<open>promises.initial\<close> if there is one, then each followup in turn.
\<close>

definition await :: "promise \<Rightarrow> nat \<Rightarrow> nat + nat" where
  "await p t = (case p of Fulfils s \<Rightarrow> Inr (max t s) | Rejects s \<Rightarrow> Inl (max t s))"

fun await_each :: "promise list \<Rightarrow> nat \<Rightarrow> nat + nat" where
  "await_each [] t = Inr t"
| "await_each (p # ps) t = (case await p t of Inl e \<Rightarrow> Inl e | Inr t' \<Rightarrow> await_each ps t')"

definition await_promises :: "payload \<Rightarrow> nat \<Rightarrow> nat + nat" where
  "await_promises n t =
     await_each ((case initial n of Some p \<Rightarrow> [p] | None \<Rightarrow> []) @
                 (case followup n of Some fs \<Rightarrow> fs | None \<Rightarrow> [])) t"

lemma size_later_entries:
  "size_list size (concat (map snd (takeWhile P l)))
     \<le> size_list (size_prod (\<lambda>_. 0) (size_list size)) l"
  by (induction l) auto

lemma size_entries_at: "size_list size (entries_at n t) < Suc (Suc (size n + k))"
  using size_later_entries [of "\<lambda>(s, _). s \<le> t" "later n"]
  by (cases n) (simp add: entries_at_def)

text \<open>
  \<^verbatim>\<open>#collect_content_async\<close>: an async function, so it carries the time along with
  the accumulator. At a payload it awaits the promises and only then reads
  \<^verbatim>\<open>#out\<close>, as it is at that time (entries appended to an array while the loop is
  running over it are not modelled). \<open>Inl\<close> is the time at which the promise that the
  function returned is rejected, because an \<^verbatim>\<open>await\<close> in it threw.
\<close>

function collect_content_async ::
  "item list \<Rightarrow> PayloadType \<Rightarrow> nat \<times> AccumulatedContent \<Rightarrow> nat + nat \<times> AccumulatedContent" where
  "collect_content_async [] current_type tc = Inr tc"
| "collect_content_async (Str s # items) current_type tc =
     collect_content_async items current_type (fst tc, append_content current_type s (snd tc))"
| "collect_content_async (Node n # items) current_type tc =
     (case await_promises n (fst tc) of
        Inl e \<Rightarrow> Inl e
      | Inr t \<Rightarrow>
          (case collect_content_async (entries_at n t) (ptype n) (t, snd tc) of
             Inl e \<Rightarrow> Inl e
           | Inr tc' \<Rightarrow> collect_content_async items current_type tc'))"
  by pat_completeness auto
termination
  by (relation "measure (\<lambda>(items, ty, tc). size_list size items)")
    (auto simp: size_entries_at)

text \<open>The promise that a call of an async function returns.\<close>

definition async_call :: "nat + nat \<times> 'a \<Rightarrow> 'a MaybePromise" where
  "async_call r = (case r of Inr (t, v) \<Rightarrow> Promise t v | Inl e \<Rightarrow> Rejected e)"

text \<open>
  \<^verbatim>\<open>#collect_content\<close>. The loop state is the accumulator \<^verbatim>\<open>content\<close>, the
  \<^verbatim>\<open>segments\<close> and \<^verbatim>\<open>has_async\<close>. It runs synchronously at time \<open>0\<close>, so
  it reads \<open>out\<close>. A truthy \<^verbatim>\<open>promises.initial\<close> is a promise, settled or not.
\<close>

definition flush ::
  "AccumulatedContent \<times> AccumulatedContent MaybePromise list
   \<Rightarrow> AccumulatedContent \<times> AccumulatedContent MaybePromise list" where
  "flush cs =
     (if head (fst cs) \<noteq> [] \<or> body (fst cs) \<noteq> []
      then (empty_content, snd cs @ [Now (fst cs)])
      else cs)"

definition is_Promise :: "'a MaybePromise \<Rightarrow> bool" where
  "is_Promise m = (case m of Now _ \<Rightarrow> False | _ \<Rightarrow> True)"

definition settled_at :: "'a MaybePromise \<Rightarrow> nat" where
  "settled_at m = (case m of Now _ \<Rightarrow> 0 | Promise t _ \<Rightarrow> t | Rejected t \<Rightarrow> t)"

text \<open>
  \<^verbatim>\<open>Promise.all(segments)\<close> is rejected as soon as one of its members is; otherwise
  it is fulfilled when the last of them has settled, with their values in the order of
  the array. \<open>fulfilled_values\<close> are the values of the members that are not rejected.
\<close>

fun earliest_rejection :: "'a MaybePromise list \<Rightarrow> nat option" where
  "earliest_rejection [] = None"
| "earliest_rejection (Rejected t # ms) =
     (case earliest_rejection ms of Some u \<Rightarrow> Some (min t u) | None \<Rightarrow> Some t)"
| "earliest_rejection (m # ms) = earliest_rejection ms"

fun fulfilled_values :: "'a MaybePromise list \<Rightarrow> 'a list" where
  "fulfilled_values [] = []"
| "fulfilled_values (Now v # ms) = v # fulfilled_values ms"
| "fulfilled_values (Promise t v # ms) = v # fulfilled_values ms"
| "fulfilled_values (Rejected t # ms) = fulfilled_values ms"

definition Promise_all :: "'a MaybePromise list \<Rightarrow> 'a list MaybePromise" where
  "Promise_all ms =
     (case earliest_rejection ms of
        Some t \<Rightarrow> Rejected t
      | None \<Rightarrow> Promise (foldl max 0 (map settled_at ms)) (fulfilled_values ms))"

text \<open>\<^verbatim>\<open>promise.then(f)\<close> for an \<open>f\<close> that returns a plain value.\<close>

definition promise_then :: "'a MaybePromise \<Rightarrow> ('a \<Rightarrow> 'b) \<Rightarrow> 'b MaybePromise" where
  "promise_then m f =
     (case m of Now v \<Rightarrow> Promise 0 (f v) | Promise t v \<Rightarrow> Promise t (f v) | Rejected t \<Rightarrow> Rejected t)"

text \<open>
  The end of \<^verbatim>\<open>#collect_content\<close>, after the loop: the last flush and the return.
  Without \<^verbatim>\<open>has_async\<close> every segment is a plain value.
\<close>

definition collect_content_return ::
  "AccumulatedContent \<times> AccumulatedContent MaybePromise list \<times> bool
   \<Rightarrow> AccumulatedContent MaybePromise" where
  "collect_content_return st =
     (let segments = snd (flush (fst st, fst (snd st)));
          has_async = snd (snd st)
      in if has_async
         then promise_then (Promise_all segments) squash_accumulated_content
         else Now (squash_accumulated_content (fulfilled_values segments)))"

fun collect_content_loop ::
  "item list \<Rightarrow> PayloadType \<Rightarrow> AccumulatedContent \<Rightarrow> AccumulatedContent MaybePromise list \<Rightarrow> bool
   \<Rightarrow> AccumulatedContent \<times> AccumulatedContent MaybePromise list \<times> bool" where
  "collect_content_loop [] current_type content segments has_async =
     (content, segments, has_async)"
| "collect_content_loop (Str s # items) current_type content segments has_async =
     collect_content_loop items current_type (append_content current_type s content)
       segments has_async"
| "collect_content_loop (Node (Payload out_n type_n initial_n followup_n later_n local_n global_n) # items)
     current_type content segments has_async =
     (if initial_n \<noteq> None then
        collect_content_loop items current_type (fst (flush (content, segments)))
          (snd (flush (content, segments)) @
            [async_call (collect_content_async
                    [Node (Payload out_n type_n initial_n followup_n later_n local_n global_n)]
                    current_type (0, empty_content))])
          True
      else
        collect_content_loop items current_type (fst (flush (content, segments)))
          (snd (flush (content, segments)) @
            [collect_content_return (collect_content_loop out_n type_n empty_content [] False)])
          (has_async \<or>
            is_Promise (collect_content_return (collect_content_loop out_n type_n empty_content [] False))))"

definition collect_content ::
  "item list \<Rightarrow> PayloadType \<Rightarrow> AccumulatedContent \<Rightarrow> AccumulatedContent MaybePromise" where
  "collect_content items current_type content =
     collect_content_return (collect_content_loop items current_type content [] False)"

text \<open>
  \<^verbatim>\<open>collect()\<close> throws \<^verbatim>\<open>Error('Encountered an asynchronous component while
  rendering synchronously')\<close> when \<^verbatim>\<open>#collect_content\<close> returned a promise.
\<close>

datatype error = AsyncComponentError

definition collect :: "payload \<Rightarrow> error + AccumulatedContent" where
  "collect this =
     (case collect_content (out this) (ptype this) empty_content of
        Now content \<Rightarrow> Inr content
      | _ \<Rightarrow> Inl AsyncComponentError)"

text \<open>
  \<^verbatim>\<open>then(onfulfilled)\<close>, reached by awaiting the payload. \<open>Inr\<close> is the time at which
  \<^verbatim>\<open>onfulfilled\<close> is called and the content it is called with. \<open>Inl\<close> is the time
  at which the awaited content is rejected: \<^verbatim>\<open>onfulfilled\<close> is never called, and the
  promise that \<^verbatim>\<open>then\<close> returned is rejected.
\<close>

definition payload_then :: "payload \<Rightarrow> nat + nat \<times> AccumulatedContent" where
  "payload_then this =
     (case collect_content [Node this] (ptype this) empty_content of
        Now content \<Rightarrow> Inr (0, content)
      | Promise t content \<Rightarrow> Inr (t, content)
      | Rejected t \<Rightarrow> Inl t)"

subsection \<open>Compaction\<close>

text \<open>
  \<^verbatim>\<open>Array.prototype.splice(start, deleteCount, item)\<close> on integers: a negative
  \<^verbatim>\<open>start\<close> counts from the end, both numbers are clamped to the array. The call
  removes a range and puts one item in its place; \<open>splice_removed\<close> is what it returns
  and \<open>splice_result\<close> the array afterwards.
\<close>

definition splice_start :: "'a list \<Rightarrow> int \<Rightarrow> nat" where
  "splice_start xs start =
     (if start < 0 then nat (max (int (length xs) + start) 0) else min (nat start) (length xs))"

definition splice_count :: "'a list \<Rightarrow> int \<Rightarrow> int \<Rightarrow> nat" where
  "splice_count xs start delete_count =
     nat (min (max delete_count 0) (int (length xs) - int (splice_start xs start)))"

definition splice_removed :: "'a list \<Rightarrow> int \<Rightarrow> int \<Rightarrow> 'a list" where
  "splice_removed xs start delete_count =
     take (splice_count xs start delete_count) (drop (splice_start xs start) xs)"

definition splice_result :: "'a list \<Rightarrow> int \<Rightarrow> int \<Rightarrow> 'a \<Rightarrow> 'a list" where
  "splice_result xs start delete_count x =
     take (splice_start xs start) xs @ [x] @
     drop (splice_start xs start + splice_count xs start delete_count) xs"

text \<open>
  The object that a transform returns has the keys \<^verbatim>\<open>head\<close> and \<^verbatim>\<open>body\<close> in the
  order in which it was built, and \<^verbatim>\<open>Object.entries\<close> lists them in that order. The
  content objects that the collectors build are \<^verbatim>\<open>{ head, body }\<close>; the identity
  transform returns the object it was given.
\<close>

datatype key_order = HeadFirst | BodyFirst

type_synonym Returned = "key_order \<times> AccumulatedContent"

definition object_entries :: "Returned \<Rightarrow> (PayloadType \<times> string) list" where
  "object_entries r =
     (case fst r of
        HeadFirst \<Rightarrow> [(Head, head (snd r)), (Body, body (snd r))]
      | BodyFirst \<Rightarrow> [(Body, body (snd r)), (Head, head (snd r))])"

definition identity_transform :: "AccumulatedContent \<Rightarrow> Returned MaybePromise" where
  "identity_transform content = Now (HeadFirst, content)"

text \<open>
  \<^verbatim>\<open>#push_accumulated_content\<close> loops over \<^verbatim>\<open>Object.entries(accumulated_content)\<close>.
  In the synchronous branch of \<^verbatim>\<open>compact\<close> the argument is whatever \<^verbatim>\<open>fn\<close>
  returned; a promise has no enumerable properties of its own, so the loop does not run
  for it.
\<close>

definition push_entry :: "payload \<Rightarrow> PayloadType \<times> string \<Rightarrow> payload" where
  "push_entry tree e =
     (if snd e = [] then tree
      else Payload
             (out tree @ [Node (push (new_Payload (pglobal tree) (plocal tree) (Some tree) (Some (fst e)))
                                 (snd e))])
             (ptype tree) (initial tree) (followup tree) (later tree) (plocal tree) (pglobal tree))"

definition push_accumulated_content :: "payload \<Rightarrow> Returned MaybePromise \<Rightarrow> payload" where
  "push_accumulated_content tree accumulated_content =
     (case accumulated_content of
        Now r \<Rightarrow> foldl push_entry tree (object_entries r)
      | _ \<Rightarrow> tree)"

text \<open>
  \<^verbatim>\<open>content.then((content) => fn(content))\<close> for a content promise fulfilled at time
  \<open>t\<close>, where \<^verbatim>\<open>fn\<close> returned \<open>m\<close>: the time at which the chained promise settles,
  and the value it is fulfilled with (\<open>None\<close> when it is rejected). A promise that
  \<^verbatim>\<open>fn\<close> returns is adopted.
\<close>

definition chained :: "nat \<Rightarrow> Returned MaybePromise \<Rightarrow> nat \<times> Returned option" where
  "chained t m =
     (case m of
        Now r \<Rightarrow> (t, Some r)
      | Promise t' r \<Rightarrow> (max t t', Some r)
      | Rejected t' \<Rightarrow> (max t t', None))"

text \<open>
  The promise branch of \<^verbatim>\<open>compact\<close>: the followup is the chained promise followed by
  the push into the placeholder, and it is queued on this payload. The placeholder is
  empty until the followup is fulfilled, and stays empty when it is rejected.
\<close>

definition queue_followup ::
  "payload \<Rightarrow> int \<Rightarrow> int \<Rightarrow> payload \<Rightarrow> nat \<times> Returned option \<Rightarrow> payload" where
  "queue_followup this start delete_count placeholder settlement =
     Payload
       (splice_result (out this) start delete_count
          (Node (Payload [] (ptype placeholder) None None
                   (case snd settlement of
                      Some r \<Rightarrow> [(fst settlement, out (push_accumulated_content placeholder (Now r)))]
                    | None \<Rightarrow> [])
                   (plocal placeholder) (pglobal placeholder))))
       (ptype this) (initial this)
       (Some ((case followup this of Some fs \<Rightarrow> fs | None \<Rightarrow> []) @
              [case snd settlement of
                 Some r \<Rightarrow> Fulfils (fst settlement)
               | None \<Rightarrow> Rejects (fst settlement)]))
       (later this) (plocal this) (pglobal this)"

text \<open>
  \<^verbatim>\<open>compact({ start, end, fn })\<close>; \<open>end_arg = None\<close> is the default
  \<^verbatim>\<open>end = this.#out.length\<close>. When \<^verbatim>\<open>#collect_content\<close> returns a promise the
  followup is queued; otherwise \<^verbatim>\<open>fn(content)\<close> is handed to
  \<^verbatim>\<open>#push_accumulated_content\<close> as it is.
\<close>

definition compact_end :: "payload \<Rightarrow> int option \<Rightarrow> int" where
  "compact_end this end_arg = (case end_arg of Some e \<Rightarrow> e | None \<Rightarrow> int (length (out this)))"

definition to_compact :: "payload \<Rightarrow> int \<Rightarrow> int option \<Rightarrow> item list" where
  "to_compact this start end_arg =
     splice_removed (out this) start (compact_end this end_arg - start)"

definition compact ::
  "payload \<Rightarrow> int \<Rightarrow> int option \<Rightarrow> (AccumulatedContent \<Rightarrow> Returned MaybePromise) \<Rightarrow> payload" where
  "compact this start end_arg fn =
     (let placeholder = new_Payload (pglobal this) (plocal this) (Some this) None;
          content = collect_content (to_compact this start end_arg) (ptype this) empty_content
      in case content of
           Now c \<Rightarrow>
             Payload
               (splice_result (out this) start (compact_end this end_arg - start)
                  (Node (push_accumulated_content placeholder (fn c))))
               (ptype this) (initial this) (followup this) (later this) (plocal this) (pglobal this)
         | Promise t c \<Rightarrow>
             queue_followup this start (compact_end this end_arg - start) placeholder
               (chained t (fn c))
         | Rejected t \<Rightarrow>
             queue_followup this start (compact_end this end_arg - start) placeholder (t, None))"

subsection \<open>Subsume\<close>

text \<open>
  \<^verbatim>\<open>subsume(other)\<close>: the shared state is merged in the store, then the fields are
  taken from \<open>other\<close>. Each child of \<open>other\<close> subsumes itself (\<^verbatim>\<open>item.subsume(item)\<close>)
  and is kept. \<^verbatim>\<open>#out\<close> becomes a new array, so what is still to be appended to this
  payload (\<open>later\<close>) stays as it was.
\<close>

fun subsume :: "heap \<Rightarrow> payload \<Rightarrow> payload \<Rightarrow> heap \<times> payload"
and subsume_items :: "heap \<Rightarrow> item list \<Rightarrow> heap \<times> item list" where
  "subsume h this (Payload out_o type_o initial_o followup_o later_o local_o global_o) =
     (case subsume_items (TreeState_subsume h (pglobal this) global_o) out_o of
        (h', out') \<Rightarrow>
          (h', Payload out' type_o initial_o followup_o (later this) local_o (pglobal this)))"
| "subsume_items h [] = (h, [])"
| "subsume_items h (Str s # items) =
     (case subsume_items h items of (h', items') \<Rightarrow> (h', Str s # items'))"
| "subsume_items h (Node n # items) =
     (case subsume h n n of
        (h1, n') \<Rightarrow> (case subsume_items h1 items of (h2, items') \<Rightarrow> (h2, Node n' # items')))"

section \<open>Document order\<close>

text \<open>
  The fragments of a list of entries, depth first and left to right, each with the type
  of the payload that owns it; the content of a channel is the concatenation of the
  fragments owned by payloads of that type. \<open>fragments\<close> reads the entries that are
  there now; \<open>eventual_fragments\<close> reads every entry that is there once all pending
  work has appended what it appends.
\<close>

fun fragments :: "PayloadType \<Rightarrow> item list \<Rightarrow> (PayloadType \<times> string) list" where
  "fragments ty [] = []"
| "fragments ty (Str s # items) = (ty, s) # fragments ty items"
| "fragments ty (Node (Payload out_n type_n initial_n followup_n later_n local_n global_n) # items) =
     fragments type_n out_n @ fragments ty items"

definition channel :: "PayloadType \<Rightarrow> (PayloadType \<times> string) list \<Rightarrow> string" where
  "channel ty fs = concat (map snd (filter (\<lambda>f. fst f = ty) fs))"

definition per_channel :: "(PayloadType \<times> string) list \<Rightarrow> AccumulatedContent" where
  "per_channel fs = \<lparr>head = channel Head fs, body = channel Body fs\<rparr>"

definition document_order :: "PayloadType \<Rightarrow> item list \<Rightarrow> AccumulatedContent" where
  "document_order ty items = per_channel (fragments ty items)"

definition all_entries :: "payload \<Rightarrow> item list" where
  "all_entries n = out n @ concat (map snd (later n))"

lemma size_all_later:
  "size_list size (concat (map snd l)) \<le> size_list (size_prod (\<lambda>_. 0) (size_list size)) l"
  by (induction l) auto

lemma size_all_entries: "size_list size (all_entries n) < Suc (Suc (size n + k))"
  using size_all_later [of "later n"]
  by (cases n) (simp add: all_entries_def)

function eventual_fragments :: "PayloadType \<Rightarrow> item list \<Rightarrow> (PayloadType \<times> string) list" where
  "eventual_fragments ty [] = []"
| "eventual_fragments ty (Str s # items) = (ty, s) # eventual_fragments ty items"
| "eventual_fragments ty (Node n # items) =
     eventual_fragments (ptype n) (all_entries n) @ eventual_fragments ty items"
  by pat_completeness auto
termination
  by (relation "measure (\<lambda>(ty, items). size_list size items)")
    (auto simp: size_all_entries)

definition eventual_document_order :: "PayloadType \<Rightarrow> item list \<Rightarrow> AccumulatedContent" where
  "eventual_document_order ty items = per_channel (eventual_fragments ty items)"

section \<open>Kinds of trees\<close>


text \<open>
  \<open>nothing_pending\<close>: no asynchronous work is pending now: every promise in
  \<^verbatim>\<open>promises.initial\<close> and every followup has settled (at time \<open>0\<close>), and nothing is
  still to be appended. The promises themselves may still be there.
\<close>

definition settles :: "promise \<Rightarrow> nat" where
  "settles p = (case p of Fulfils t \<Rightarrow> t | Rejects t \<Rightarrow> t)"


text \<open>
  \<open>has_promise\<close>: the loop of \<^verbatim>\<open>#collect_content\<close> meets a payload with a promise in
  \<^verbatim>\<open>promises.initial\<close>, at any depth that it descends to.
\<close>

fun has_promise :: "item list \<Rightarrow> bool" where
  "has_promise [] = False"
| "has_promise (Str s # items) = has_promise items"
| "has_promise (Node (Payload out_n type_n initial_n followup_n later_n local_n global_n) # items) =
     (initial_n \<noteq> None \<or> has_promise out_n \<or> has_promise items)"

text \<open>
  \<open>well_timed\<close>: whatever is still to be appended to a payload is appended by its own
  render function, that is, the payload has a promise in \<^verbatim>\<open>promises.initial\<close> and the
  appending happens no later than that promise settles. \<open>no_rejection\<close>: no promise
  in the tree is rejected. The settling times themselves are arbitrary.
\<close>

function well_timed :: "item list \<Rightarrow> bool" where
  "well_timed [] = True"
| "well_timed (Str s # items) = well_timed items"
| "well_timed (Node n # items) =
     (list_all (\<lambda>e. case initial n of Some p \<Rightarrow> fst e \<le> settles p | None \<Rightarrow> False) (later n)
      \<and> well_timed (all_entries n) \<and> well_timed items)"
  by pat_completeness auto
termination
  by (relation "measure (\<lambda>items. size_list size items)")
    (auto simp: size_all_entries)

definition fulfils :: "promise \<Rightarrow> bool" where
  "fulfils p = (case p of Fulfils t \<Rightarrow> True | Rejects t \<Rightarrow> False)"

function no_rejection :: "item list \<Rightarrow> bool" where
  "no_rejection [] = True"
| "no_rejection (Str s # items) = no_rejection items"
| "no_rejection (Node n # items) =
     ((case initial n of Some p \<Rightarrow> fulfils p | None \<Rightarrow> True)
      \<and> (case followup n of Some fs \<Rightarrow> list_all fulfils fs | None \<Rightarrow> True)
      \<and> no_rejection (all_entries n) \<and> no_rejection items)"
  by pat_completeness auto
termination
  by (relation "measure (\<lambda>items. size_list size items)")
    (auto simp: size_all_entries)

section \<open>Render functions and states used in the examples\<close>

text \<open>
  A render function that suspends, pushes \<open>s\<close> when it resumes, and returns a promise
  that is fulfilled at time \<open>t\<close>; one that pushes \<open>s\<close> and returns a promise that has
  been fulfilled by now; and one that is rejected at time \<open>t\<close> without pushing.
\<close>

definition async_render :: "nat \<Rightarrow> string \<Rightarrow> payload \<Rightarrow> payload \<times> promise option" where
  "async_render t s c =
     (Payload (out c) (ptype c) (initial c) (followup c) (later c @ [(t, [Str s])])
        (plocal c) (pglobal c),
      Some (Fulfils t))"

definition finished_render :: "string \<Rightarrow> payload \<Rightarrow> payload \<times> promise option" where
  "finished_render s c = (push c s, Some (Fulfils 0))"

definition failing_render :: "nat \<Rightarrow> payload \<Rightarrow> payload \<times> promise option" where
  "failing_render t c = (c, Some (Rejects t))"

text \<open>
  A synchronous render function that renders an asynchronous child and compacts it with
  the identity transform; and an asynchronous one that does the same before its own
  promise is fulfilled at time \<open>t\<close>.
\<close>

definition compacting_render :: "nat \<Rightarrow> string \<Rightarrow> payload \<Rightarrow> payload \<times> promise option" where
  "compacting_render u s c = (compact (child c (async_render u s) None) 0 None identity_transform, None)"

definition async_compacting_render ::
  "nat \<Rightarrow> nat \<Rightarrow> string \<Rightarrow> payload \<Rightarrow> payload \<times> promise option" where
  "async_compacting_render t u s c =
     (compact (child c (async_render u s) None) 0 None identity_transform, Some (Fulfils t))"

text \<open>
  One leaf entry for each key of the returned object whose string is not empty, in the
  order of the keys: a new payload of that type holding the string as its only fragment.
\<close>

definition leaves :: "addr \<Rightarrow> string option \<Rightarrow> Returned \<Rightarrow> item list" where
  "leaves g l r =
     concat (map (\<lambda>e. if snd e = [] then [] else [Node (Payload [Str (snd e)] (fst e) None None [] l g)])
               (object_entries r))"

text \<open>\<^verbatim>\<open>state.head.title\<close> read, and \<^verbatim>\<open>state.head.title = v\<close>.\<close>

definition title_of_state :: "heap \<Rightarrow> addr \<Rightarrow> Title option" where
  "title_of_state h state = (case TreeState_head h state of Some hs \<Rightarrow> read_title h hs | None \<Rightarrow> None)"

definition assign_title :: "heap \<Rightarrow> addr \<Rightarrow> Title \<Rightarrow> heap" where
  "assign_title h state v =
     (case TreeState_head h state of Some hs \<Rightarrow> TreeHeadState_set_title h hs v | None \<Rightarrow> h)"

text \<open>
  A new TreeState (at address 5, its stylesheet set at address 1) and two stylesheet
  records with the same hash and different code (at addresses 6 and 7).
\<close>

definition two_styles_heap :: heap where
  "two_styles_heap =
     snd (alloc (snd (alloc (snd (new_TreeState empty_heap []))
                  (StyleObj \<lparr>hash = ''h'', code = ''a''\<rparr>)))
            (StyleObj \<lparr>hash = ''h'', code = ''b''\<rparr>))"

section \<open>What the collector computes\<close>

text \<open>
  The value of the loop state of \<^verbatim>\<open>#collect_content\<close>: the segments squashed,
  followed by the accumulator.
\<close>

definition state_value ::
  "AccumulatedContent \<times> AccumulatedContent MaybePromise list \<times> bool \<Rightarrow> AccumulatedContent" where
  "state_value st =
     squash_step (squash_accumulated_content (fulfilled_values (fst (snd st)))) (fst st)"

section \<open>Properties of the title slot\<close>

lemma title_loop_drop:
  "i \<le> length c \<Longrightarrow> i \<le> length s \<Longrightarrow> take i c = take i s \<Longrightarrow>
   title_loop c s i = ((drop i s, drop i c) \<in> lexord {(a, b). a < b})"
proof (induction c s i rule: title_loop.induct)
  case (1 c s i)
  show ?case
  proof (cases "i < length c")
    case False
    then have "drop i c = []" by simp
    then show ?thesis using False by (subst title_loop.simps) auto
  next
    case ic: True
    have dc: "drop i c = c ! i # drop (Suc i) c"
      using ic by (simp add: Cons_nth_drop_Suc)
    show ?thesis
    proof (cases "i < length s")
      case False
      then have "drop i s = []" by simp
      then show ?thesis using ic False dc
        by (subst title_loop.simps) simp
    next
      case isl: True
      have ds: "drop i s = s ! i # drop (Suc i) s"
        using isl by (simp add: Cons_nth_drop_Suc)
      show ?thesis
      proof (cases "c ! i = s ! i")
        case True
        have "take (Suc i) c = take (Suc i) s"
          using "1.prems" ic isl True by (simp add: take_Suc_conv_app_nth)
        then have "title_loop c s (Suc i)
            = ((drop (Suc i) s, drop (Suc i) c) \<in> lexord {(a, b). a < b})"
          using "1.IH" ic isl True by simp
        then show ?thesis using ic isl True dc ds
          by (subst title_loop.simps) simp
      next
        case False
        then show ?thesis using ic isl dc ds
          by (subst title_loop.simps) auto
      qed
    qed
  qed
qed

lemma title_loop_lexord:
  "title_loop c s 0 = ((s, c) \<in> lexord {(a, b). a < b})"
  using title_loop_drop [of 0 c s] by simp

lemma set_title_lexord:
  "set_title cur v =
     (if (path cur, path v) \<in> lexord {(a, b). a < b}
      then cur\<lparr>path := path v, tvalue := tvalue v\<rparr> else cur)"
  by (simp add: set_title_def title_loop_lexord)

text \<open>
  C4. The title setter assigns exactly when the contender's path is lexicographically
  later than the stored one: either the stored path is a proper prefix of the contender's
  (the stored path runs out first), or at the first index where they differ the
  contender's segment is the greater. In every other case (the contender runs out
  first, its segment is smaller, or the paths are equal) the slot keeps its record.
  Hence contenders at the paths [0], [1] and [0, 1], assigned to a new slot in any of
  the six orders, leave the record of path [1].
\<close>

theorem title_assignment_lexicographic:
  "(title_loop contender current 0 \<longleftrightarrow>
      (\<exists>a rest. contender = current @ a # rest)
      \<or> (\<exists>common a b rest rest'.
            a < b \<and> current = common @ a # rest \<and> contender = common @ b # rest'))
   \<and> set_title cur v =
       (if (path cur, path v) \<in> lexord {(a, b). a < b}
        then cur\<lparr>path := path v, tvalue := tvalue v\<rparr> else cur)
   \<and> (path v = path cur \<longrightarrow> set_title cur v = cur)
   \<and> (\<forall>order \<in> set [[c0, c1, c01], [c0, c01, c1], [c1, c0, c01],
                         [c1, c01, c0], [c01, c0, c1], [c01, c1, c0]].
        path c0 = [0] \<and> path c1 = [1] \<and> path c01 = [0, 1] \<longrightarrow>
        set_titles initial_title order = \<lparr>path = [1], tvalue = tvalue c1\<rparr>)"
proof (intro conjI)
  show "title_loop contender current 0 \<longleftrightarrow>
      (\<exists>a rest. contender = current @ a # rest)
      \<or> (\<exists>common a b rest rest'.
            a < b \<and> current = common @ a # rest \<and> contender = common @ b # rest')"
    unfolding title_loop_lexord lexord_def by auto
  show "set_title cur v =
       (if (path cur, path v) \<in> lexord {(a, b). a < b}
        then cur\<lparr>path := path v, tvalue := tvalue v\<rparr> else cur)"
    by (rule set_title_lexord)
  show "path v = path cur \<longrightarrow> set_title cur v = cur"
    by (simp add: set_title_lexord lexord_irreflexive)
  show "\<forall>order \<in> set [[c0, c1, c01], [c0, c01, c1], [c1, c0, c01],
                         [c1, c01, c0], [c01, c0, c1], [c01, c1, c0]].
        path c0 = [0] \<and> path c1 = [1] \<and> path c01 = [0, 1] \<longrightarrow>
        set_titles initial_title order = \<lparr>path = [1], tvalue = tvalue c1\<rparr>"
    by (simp add: set_titles_def set_title_lexord initial_title_def)
qed

theorem title_assignment_lexicographic_witness:
  "title_loop [0, 1] [0] 0 \<and> \<not> title_loop [0] [0, 1] 0
   \<and> set_title \<lparr>path = [0, 1], tvalue = ''stored''\<rparr> \<lparr>path = [0, 1], tvalue = ''again''\<rparr>
       = \<lparr>path = [0, 1], tvalue = ''stored''\<rparr>
   \<and> set_title \<lparr>path = [0, 1], tvalue = ''stored''\<rparr> \<lparr>path = [1], tvalue = ''later''\<rparr>
       = \<lparr>path = [1], tvalue = ''later''\<rparr>
   \<and> set_titles initial_title
        [\<lparr>path = [0, 1], tvalue = ''c''\<rparr>, \<lparr>path = [1], tvalue = ''b''\<rparr>, \<lparr>path = [0], tvalue = ''a''\<rparr>]
       = \<lparr>path = [1], tvalue = ''b''\<rparr>"
proof -
  note t = title_assignment_lexicographic
  have a: "title_loop [0, 1] [0] 0"
    using t [of "[0, 1]" "[0]"] by simp
  have b: "\<not> title_loop [0] [0, 1] 0"
    using t [of "[0]" "[0, 1]"] by (simp add: append_eq_Cons_conv Cons_eq_append_conv)
  have c: "set_title \<lparr>path = [0, 1], tvalue = ''stored''\<rparr> \<lparr>path = [0, 1], tvalue = ''again''\<rparr>
       = \<lparr>path = [0, 1], tvalue = ''stored''\<rparr>"
    using t [of _ _ "\<lparr>path = [0, 1], tvalue = ''stored''\<rparr>" "\<lparr>path = [0, 1], tvalue = ''again''\<rparr>"]
    by simp
  have d: "set_title \<lparr>path = [0, 1], tvalue = ''stored''\<rparr> \<lparr>path = [1], tvalue = ''later''\<rparr>
       = \<lparr>path = [1], tvalue = ''later''\<rparr>"
    using t [of _ _ "\<lparr>path = [0, 1], tvalue = ''stored''\<rparr>" "\<lparr>path = [1], tvalue = ''later''\<rparr>"]
    by simp
  have e: "set_titles initial_title
        [\<lparr>path = [0, 1], tvalue = ''c''\<rparr>, \<lparr>path = [1], tvalue = ''b''\<rparr>, \<lparr>path = [0], tvalue = ''a''\<rparr>]
       = \<lparr>path = [1], tvalue = ''b''\<rparr>"
    using t [of _ _ _ _ "\<lparr>path = [0], tvalue = ''a''\<rparr>" "\<lparr>path = [1], tvalue = ''b''\<rparr>"
       "\<lparr>path = [0, 1], tvalue = ''c''\<rparr>"]
    by simp
  from a b c d e show ?thesis by blast
qed

section \<open>Properties of collection\<close>

lemma MaybePromise_simps [simp]:
  "is_Promise (Now v) = False" "is_Promise (Promise t v) = True" "is_Promise (Rejected t) = True"
  "settled_at (Now v) = 0" "settled_at (Promise t v) = t" "settled_at (Rejected t) = t"
  by (simp_all add: is_Promise_def settled_at_def)

lemma squash_step_assoc:
  "squash_step (squash_step a b) c = squash_step a (squash_step b c)"
  by (simp add: squash_step_def)

lemma squash_step_empty [simp]:
  "squash_step empty_content c = c" "squash_step c empty_content = c"
  by (simp_all add: squash_step_def empty_content_def)

lemma squash_snoc:
  "squash_accumulated_content (cs @ [c]) = squash_step (squash_accumulated_content cs) c"
  by (simp add: squash_accumulated_content_def)

lemma squash_Nil [simp]: "squash_accumulated_content [] = empty_content"
  by (simp add: squash_accumulated_content_def)

lemma append_content_squash:
  "append_content ty s c = squash_step c (append_content ty s empty_content)"
  by (cases ty) (simp_all add: append_content_def squash_step_def empty_content_def)

lemma fulfilled_values_append:
  "fulfilled_values (ms @ ns) = fulfilled_values ms @ fulfilled_values ns"
  by (induction ms rule: fulfilled_values.induct) simp_all

lemma earliest_rejection_append:
  "earliest_rejection ms = None \<Longrightarrow> earliest_rejection (ms @ ns) = earliest_rejection ns"
  by (induction ms rule: earliest_rejection.induct) (simp_all split: option.splits)

lemma state_value_initial [simp]: "state_value (c, [], ha) = c"
  by (simp add: state_value_def)

lemma state_value_flush_snoc:
  "state_value (fst (flush (c, segs)), snd (flush (c, segs)) @ [Now v], ha)
     = squash_step (state_value (c, segs, hb)) v"
  by (cases c)
    (simp add: flush_def state_value_def fulfilled_values_append squash_snoc empty_content_def
      squash_step_def)

lemma state_value_flush_snoc_Promise:
  "state_value (fst (flush (c, segs)), snd (flush (c, segs)) @ [Promise t v], ha)
     = squash_step (state_value (c, segs, hb)) v"
  by (cases c)
    (simp add: flush_def state_value_def fulfilled_values_append squash_snoc empty_content_def
      squash_step_def)

lemma flush_plain:
  "list_all (\<lambda>m. \<not> is_Promise m) segs \<Longrightarrow> list_all (\<lambda>m. \<not> is_Promise m) (snd (flush (c, segs)))"
  by (simp add: flush_def)

lemma flush_no_rejection:
  "earliest_rejection segs = None \<Longrightarrow> earliest_rejection (snd (flush (c, segs))) = None"
  by (simp add: flush_def earliest_rejection_append)

lemma flushed_value:
  "squash_accumulated_content (fulfilled_values (snd (flush (c, segs)))) = state_value (c, segs, ha)"
  by (cases c)
    (simp add: flush_def state_value_def fulfilled_values_append squash_snoc empty_content_def
      squash_step_def)

lemma return_plain:
  "collect_content_return (c, segs, False) = Now (state_value (c, segs, False))"
  by (simp add: collect_content_return_def Let_def flushed_value [of c segs False])

lemma return_is_Promise: "is_Promise (collect_content_return st) = snd (snd st)"
  by (simp add: collect_content_return_def Let_def promise_then_def Promise_all_def
      split: option.splits MaybePromise.splits)

lemma loop_has_async:
  "snd (snd (collect_content_loop items ty c segs ha)) = (ha \<or> has_promise items)"
  by (induction items ty c segs ha rule: collect_content_loop.induct)
    (simp_all add: return_is_Promise)

lemma per_channel_append:
  "per_channel (fs @ gs) = squash_step (per_channel fs) (per_channel gs)"
  by (simp add: per_channel_def channel_def squash_step_def)

lemma per_channel_Nil [simp]: "per_channel [] = empty_content"
  by (simp add: per_channel_def channel_def empty_content_def)

lemma per_channel_single:
  "per_channel [(ty, s)] = append_content ty s empty_content"
  by (cases ty) (simp_all add: per_channel_def channel_def append_content_def empty_content_def)

lemma per_channel_Cons:
  "per_channel ((ty, s) # fs) = squash_step (append_content ty s empty_content) (per_channel fs)"
  using per_channel_append [of "[(ty, s)]" fs] by (simp add: per_channel_single)

lemma loop_without_promise:
  "\<not> has_promise items \<Longrightarrow>
   state_value (collect_content_loop items ty c segs ha)
     = squash_step (state_value (c, segs, ha)) (document_order ty items)"
proof (induction items ty c segs ha rule: collect_content_loop.induct)
  case (1 ty c segs ha)
  show ?case by (simp add: document_order_def)
next
  case (2 s items ty c segs ha)
  have "state_value (append_content ty s c, segs, ha)
      = squash_step (state_value (c, segs, ha)) (append_content ty s empty_content)"
    by (subst append_content_squash) (simp add: state_value_def squash_step_assoc)
  then show ?case
    using 2 by (simp add: document_order_def per_channel_Cons squash_step_assoc)
next
  case (3 out_n type_n initial_n followup_n later_n local_n global_n items ty c segs ha)
  from "3.prems" have i: "initial_n = None" and po: "\<not> has_promise out_n"
    and pi: "\<not> has_promise items" by simp_all
  let ?sub = "collect_content_loop out_n type_n empty_content [] False"
  have f: "snd (snd ?sub) = False" using po by (simp add: loop_has_async)
  have "?sub = (fst ?sub, fst (snd ?sub), False)"
    using f by (metis prod.collapse)
  then have r: "collect_content_return ?sub = Now (state_value ?sub)"
    using return_plain [of "fst ?sub" "fst (snd ?sub)"] by simp
  have v: "state_value ?sub = document_order type_n out_n"
    using "3.IH"(2) i po by simp
  show ?case
    using "3.IH"(4) i pi
    by (simp add: r v state_value_flush_snoc [where hb = ha] document_order_def
        per_channel_append squash_step_assoc)
qed

lemma collect_content_without_promise:
  "\<not> has_promise items \<Longrightarrow>
   collect_content items ty c = Now (squash_step c (document_order ty items))"
proof -
  assume p: "\<not> has_promise items"
  let ?st = "collect_content_loop items ty c [] False"
  have "snd (snd ?st) = False" using p by (simp add: loop_has_async)
  then have "?st = (fst ?st, fst (snd ?st), False)" by (metis prod.collapse)
  then have "collect_content_return ?st = Now (state_value ?st)"
    using return_plain [of "fst ?st" "fst (snd ?st)"] by simp
  then show ?thesis
    using loop_without_promise [OF p, of ty c "[]" False] by (simp add: collect_content_def)
qed

lemma collect_content_is_Promise:
  "is_Promise (collect_content items ty c) = has_promise items"
  by (simp add: collect_content_def return_is_Promise loop_has_async)

lemma collect_eq:
  "collect this =
     (if has_promise (out this) then Inl AsyncComponentError
      else Inr (document_order (ptype this) (out this)))"
proof (cases "has_promise (out this)")
  case True
  then have "is_Promise (collect_content (out this) (ptype this) empty_content)"
    by (simp add: collect_content_is_Promise)
  then show ?thesis
    using True
    by (cases "collect_content (out this) (ptype this) empty_content") (simp_all add: collect_def)
next
  case False
  then show ?thesis by (simp add: collect_def collect_content_without_promise)
qed


section \<open>Synchronous trees, construction and subsume\<close>





lemma out_foldl_push: "out (foldl push this fs) = out this @ map Str fs"
  by (induction fs arbitrary: this) (simp_all add: push_def)

lemma ptype_foldl_push: "ptype (foldl push this fs) = ptype this"
  by (induction fs arbitrary: this) (simp_all add: push_def)

lemma fragments_strs: "fragments ty (map Str fs) = map (Pair ty) fs"
  by (induction fs) simp_all

lemma document_order_strs:
  "document_order ty (map Str fs) = append_content ty (concat fs) empty_content"
  by (cases ty)
    (simp_all add: document_order_def fragments_strs per_channel_def channel_def append_content_def
      empty_content_def filter_map comp_def)

lemma has_promise_strs: "\<not> has_promise (map Str fs)"
  by (induction fs) simp_all

text \<open>
  C10. A payload constructed without a type and without a parent has the type body, so
  what is pushed to a root made with all defaults is collected into the body string;
  constructed without a type but with a parent, it has the parent's type.
\<close>

theorem default_type_is_body:
  "ptype (new_Payload g l None None) = Body
   \<and> ptype (fst (new_root h)) = Body
   \<and> collect (foldl push (fst (new_root h)) fs) = Inr \<lparr>head = [], body = concat fs\<rparr>
   \<and> ptype (new_Payload g l (Some parent) None) = ptype parent"
proof -
  have r: "fst (new_root h) = new_Payload (fst (new_TreeState h [])) None None None"
    by (simp add: new_root_def split: prod.splits)
  have o: "out (new_Payload g' l' None None) = []" for g' l'
    by (simp add: new_Payload_def)
  have t: "ptype (new_Payload g' l' None None) = Body" for g' l'
    by (simp add: new_Payload_def)
  have "collect (foldl push (fst (new_root h)) fs) = Inr \<lparr>head = [], body = concat fs\<rparr>"
    by (simp add: collect_eq out_foldl_push ptype_foldl_push r o t document_order_strs
        has_promise_strs append_content_def empty_content_def)
  then show ?thesis
    by (simp add: r t) (simp add: new_Payload_def)
qed

theorem default_type_is_body_witness:
  "ptype (new_Payload 0 None None None) = Body
   \<and> collect (foldl push (fst (new_root empty_heap)) [''a'', ''b'']) = Inr \<lparr>head = [], body = ''ab''\<rparr>
   \<and> ptype (new_Payload 0 None (Some (Payload [] Head None None [] None 0)) None) = Head"
  using default_type_is_body [of 0 None empty_heap "[''a'', ''b'']" "Payload [] Head None None [] None 0"]
  by simp

lemma subsume_fields:
  "snd (subsume h this other) =
     Payload (out other) (ptype other) (initial other) (followup other) (later this)
       (plocal other) (pglobal this)"
  "snd (subsume_items h items) = items"
proof (induction h this other and h items rule: subsume_subsume_items.induct)
  case (1 h this out_o type_o initial_o followup_o later_o local_o global_o)
  then show ?case by (auto split: prod.splits)
next
  case (2 h)
  show ?case by simp
next
  case (3 h s items)
  then show ?case by (auto split: prod.splits)
next
  case (4 h n items)
  have "snd (subsume h n n) = n" using 4(1) by (cases n) simp
  then show ?case using 4(2) by (auto split: prod.splits)
qed

text \<open>
  C9. After \<^verbatim>\<open>a.subsume(b)\<close>, collecting \<open>a\<close> gives what collecting \<open>b\<close> gives
  at the time of the call, an error included: the entries, the type, the branch-local
  state and the promises of \<open>a\<close> are those of \<open>b\<close>.
\<close>

theorem subsume_collect:
  "collect (snd (subsume h a b)) = collect b
   \<and> out (snd (subsume h a b)) = out b
   \<and> ptype (snd (subsume h a b)) = ptype b
   \<and> plocal (snd (subsume h a b)) = plocal b
   \<and> initial (snd (subsume h a b)) = initial b
   \<and> followup (snd (subsume h a b)) = followup b"
  by (simp add: subsume_fields collect_eq)

theorem subsume_collect_witness:
  "collect (snd (subsume empty_heap
            (Payload [Str ''old''] Head None None [] None 0)
            (Payload [Str ''x'', Node (Payload [Str ''h''] Head None None [] None 1)] Body None None []
               (Some ''v'') 1)))
     = Inr \<lparr>head = ''h'', body = ''x''\<rparr>
   \<and> ptype (snd (subsume empty_heap
            (Payload [Str ''old''] Head None None [] None 0)
            (Payload [Str ''x'', Node (Payload [Str ''h''] Head None None [] None 1)] Body None None []
               (Some ''v'') 1))) = Body"
  using subsume_collect [of empty_heap "Payload [Str ''old''] Head None None [] None 0"
      "Payload [Str ''x'', Node (Payload [Str ''h''] Head None None [] None 1)] Body None None []
               (Some ''v'') 1"]
  by (simp add: collect_eq document_order_def per_channel_def channel_def)

section \<open>Properties of compaction\<close>







lemma push_leaves:
  "push_accumulated_content (new_Payload g l parent None) (Now r)
     = Payload (leaves g l r) (ptype (new_Payload g l parent None)) None None [] l g"
  by (cases r, cases "fst r")
    (simp_all add: push_accumulated_content_def push_entry_def new_Payload_def push_def leaves_def
      object_entries_def)







lemma splice_in_range:
  "0 \<le> start \<Longrightarrow> start \<le> e \<Longrightarrow> e \<le> int (length xs) \<Longrightarrow>
   splice_start xs start = nat start \<and> splice_count xs start (e - start) = nat e - nat start"
  by (auto simp: splice_start_def splice_count_def)

lemma compact_in_range:
  assumes "0 \<le> start" and "start \<le> e" and "e \<le> int (length (out this))"
  shows "to_compact this start (Some e) = take (nat e - nat start) (drop (nat start) (out this))"
    and "collect_content (to_compact this start (Some e)) (ptype this) empty_content = Now c \<Longrightarrow>
         fn c = Now r \<Longrightarrow>
         compact this start (Some e) fn =
           Payload
             (take (nat start) (out this) @
              [Node (Payload (leaves (pglobal this) (plocal this) r) (ptype this) None None []
                       (plocal this) (pglobal this))] @
              drop (nat e) (out this))
             (ptype this) (initial this) (followup this) (later this) (plocal this) (pglobal this)"
    and "collect_content (to_compact this start (Some e)) (ptype this) empty_content = Promise t c \<Longrightarrow>
         chained t (fn c) = (s, Some r) \<Longrightarrow>
         compact this start (Some e) fn =
           Payload
             (take (nat start) (out this) @
              [Node (Payload [] (ptype this) None None
                       [(s, leaves (pglobal this) (plocal this) r)]
                       (plocal this) (pglobal this))] @
              drop (nat e) (out this))
             (ptype this) (initial this)
             (Some ((case followup this of Some fs \<Rightarrow> fs | None \<Rightarrow> []) @ [Fulfils s]))
             (later this) (plocal this) (pglobal this)"
proof -
  note sp = splice_in_range [OF assms]
  show "to_compact this start (Some e) = take (nat e - nat start) (drop (nat start) (out this))"
    by (simp add: to_compact_def compact_end_def splice_removed_def sp)
  have res: "splice_result (out this) start (compact_end this (Some e) - start) x
      = take (nat start) (out this) @ [x] @ drop (nat e) (out this)" for x
    using assms by (simp add: splice_result_def compact_end_def sp)
  have ty: "ptype (new_Payload (pglobal this) (plocal this) (Some this) None) = ptype this"
    by (simp add: new_Payload_def)
  show "collect_content (to_compact this start (Some e)) (ptype this) empty_content = Now c \<Longrightarrow>
         fn c = Now r \<Longrightarrow>
         compact this start (Some e) fn =
           Payload
             (take (nat start) (out this) @
              [Node (Payload (leaves (pglobal this) (plocal this) r) (ptype this) None None []
                       (plocal this) (pglobal this))] @
              drop (nat e) (out this))
             (ptype this) (initial this) (followup this) (later this) (plocal this) (pglobal this)"
    by (simp add: compact_def Let_def res push_leaves ty)
  show "collect_content (to_compact this start (Some e)) (ptype this) empty_content = Promise t c \<Longrightarrow>
         chained t (fn c) = (s, Some r) \<Longrightarrow>
         compact this start (Some e) fn =
           Payload
             (take (nat start) (out this) @
              [Node (Payload [] (ptype this) None None
                       [(s, leaves (pglobal this) (plocal this) r)]
                       (plocal this) (pglobal this))] @
              drop (nat e) (out this))
             (ptype this) (initial this)
             (Some ((case followup this of Some fs \<Rightarrow> fs | None \<Rightarrow> []) @ [Fulfils s]))
             (later this) (plocal this) (pglobal this)"
    by (simp add: compact_def Let_def res queue_followup_def push_leaves ty)
      (simp add: new_Payload_def)
qed

section \<open>Properties of suspending collection\<close>

lemma await_each_fulfils:
  "list_all fulfils ps \<Longrightarrow>
   \<exists>t'. await_each ps t = Inr t' \<and> t \<le> t' \<and> list_all (\<lambda>p. settles p \<le> t') ps"
proof (induction ps arbitrary: t)
  case Nil
  show ?case by simp
next
  case (Cons p ps)
  then obtain s where p: "p = Fulfils s" by (cases p) (simp_all add: fulfils_def)
  from Cons obtain t' where t': "await_each ps (max t s) = Inr t'" "max t s \<le> t'"
    "list_all (\<lambda>p. settles p \<le> t') ps"
    by fastforce
  then show ?case by (simp add: p await_def settles_def)
qed

lemma await_promises_fulfils:
  assumes "case initial n of Some p \<Rightarrow> fulfils p | None \<Rightarrow> True"
    and "case followup n of Some fs \<Rightarrow> list_all fulfils fs | None \<Rightarrow> True"
  shows "\<exists>t'. await_promises n t = Inr t' \<and> (\<forall>p. initial n = Some p \<longrightarrow> settles p \<le> t')"
proof -
  let ?ps = "(case initial n of Some p \<Rightarrow> [p] | None \<Rightarrow> []) @
             (case followup n of Some fs \<Rightarrow> fs | None \<Rightarrow> [])"
  have "list_all fulfils ?ps" using assms by (simp split: option.splits)
  from await_each_fulfils [OF this, of t]
  obtain t' where "await_each ?ps t = Inr t'" "list_all (\<lambda>p. settles p \<le> t') ?ps" by blast
  then show ?thesis by (auto simp: await_promises_def split: option.splits)
qed

lemma entries_at_all:
  assumes "list_all (\<lambda>e. case initial n of Some p \<Rightarrow> fst e \<le> settles p | None \<Rightarrow> False) (later n)"
    and "\<forall>p. initial n = Some p \<longrightarrow> settles p \<le> t"
  shows "entries_at n t = all_entries n"
proof -
  have "takeWhile (\<lambda>(s, _). s \<le> t) (later n) = later n"
  proof (rule takeWhile_eq_all_conv [THEN iffD2], rule ballI)
    fix e assume e: "e \<in> set (later n)"
    then have "case initial n of Some p \<Rightarrow> fst e \<le> settles p | None \<Rightarrow> False"
      using assms(1) by (simp add: list_all_iff)
    then obtain p where "initial n = Some p" "fst e \<le> settles p"
      by (cases "initial n") auto
    then have "fst e \<le> t" using assms(2) by fastforce
    then show "case e of (s, _) \<Rightarrow> s \<le> t" by (cases e) simp
  qed
  then show ?thesis by (simp only: entries_at_def all_entries_def)
qed

lemma async_content:
  "well_timed items \<Longrightarrow> no_rejection items \<Longrightarrow>
   \<exists>t'. collect_content_async items ty tc
           = Inr (t', squash_step (snd tc) (per_channel (eventual_fragments ty items)))"
proof (induction items ty tc rule: collect_content_async.induct)
  case (1 ty tc)
  show ?case by (cases tc) simp
next
  case (2 s items ty tc)
  then show ?case
    by (simp add: per_channel_Cons squash_step_assoc append_content_squash [of ty s "snd tc"])
next
  case (3 n items ty tc)
  from "3.prems" have wl: "list_all (\<lambda>e. case initial n of Some p \<Rightarrow> fst e \<le> settles p | None \<Rightarrow> False) (later n)"
    and w1: "well_timed (all_entries n)" and w2: "well_timed items"
    and r1: "no_rejection (all_entries n)" and r2: "no_rejection items"
    and fi: "case initial n of Some p \<Rightarrow> fulfils p | None \<Rightarrow> True"
    and ff: "case followup n of Some fs \<Rightarrow> list_all fulfils fs | None \<Rightarrow> True"
    by simp_all
  from await_promises_fulfils [OF fi ff, of "fst tc"]
  obtain t where t: "await_promises n (fst tc) = Inr t" "\<forall>p. initial n = Some p \<longrightarrow> settles p \<le> t"
    by blast
  have e: "entries_at n t = all_entries n" by (rule entries_at_all [OF wl t(2)])
  from "3.IH"(1) [OF t(1)] w1 r1 e
  obtain t1 where t1: "collect_content_async (entries_at n t) (ptype n) (t, snd tc)
      = Inr (t1, squash_step (snd tc) (per_channel (eventual_fragments (ptype n) (all_entries n))))"
    by auto
  from "3.IH"(2) [OF t(1) t1 w2 r2]
  obtain t2 where "collect_content_async items ty
       (t1, squash_step (snd tc) (per_channel (eventual_fragments (ptype n) (all_entries n))))
      = Inr (t2, squash_step (squash_step (snd tc) (per_channel (eventual_fragments (ptype n) (all_entries n))))
                  (per_channel (eventual_fragments ty items)))"
    by auto
  then show ?case
    by (simp add: t(1) t1 per_channel_append squash_step_assoc)
qed

lemma return_fulfilled:
  "earliest_rejection segs = None \<Longrightarrow>
   collect_content_return (c, segs, ha) = Now (state_value (c, segs, ha))
   \<or> (\<exists>t. collect_content_return (c, segs, ha) = Promise t (state_value (c, segs, ha)))"
  by (simp add: collect_content_return_def Let_def Promise_all_def promise_then_def
      flush_no_rejection flushed_value [of c segs ha])

lemma loop_well_timed:
  "well_timed items \<Longrightarrow> no_rejection items \<Longrightarrow> earliest_rejection segs = None \<Longrightarrow>
   earliest_rejection (fst (snd (collect_content_loop items ty c segs ha))) = None
   \<and> state_value (collect_content_loop items ty c segs ha)
       = squash_step (state_value (c, segs, ha)) (eventual_document_order ty items)"
proof (induction items ty c segs ha rule: collect_content_loop.induct)
  case (1 ty c segs ha)
  then show ?case by (simp add: eventual_document_order_def)
next
  case (2 s items ty c segs ha)
  have "state_value (append_content ty s c, segs, ha)
      = squash_step (state_value (c, segs, ha)) (append_content ty s empty_content)"
    by (subst append_content_squash) (simp add: state_value_def squash_step_assoc)
  then show ?case
    using 2 by (simp add: eventual_document_order_def per_channel_Cons squash_step_assoc)
next
  case (3 out_n type_n initial_n followup_n later_n local_n global_n items ty c segs ha)
  let ?n = "Payload out_n type_n initial_n followup_n later_n local_n global_n"
  from "3.prems" have w2: "well_timed items" and r2: "no_rejection items" by simp_all
  note fr = flush_no_rejection [OF "3.prems"(3), of c]
  show ?case
  proof (cases "initial_n = None")
    case True
    with "3.prems" have l: "later_n = []" by (cases later_n) simp_all
    then have a: "all_entries ?n = out_n" by (simp add: all_entries_def)
    with "3.prems" have wo: "well_timed out_n" and ro: "no_rejection out_n" by simp_all
    let ?sub = "collect_content_loop out_n type_n empty_content [] False"
    from "3.IH"(2) [OF _ wo ro] True
    have s1: "earliest_rejection (fst (snd ?sub)) = None"
      and s2: "state_value ?sub = eventual_document_order type_n out_n" by simp_all
    have "?sub = (fst ?sub, fst (snd ?sub), snd (snd ?sub))" by simp
    with return_fulfilled [OF s1, of "fst ?sub" "snd (snd ?sub)"]
    have "collect_content_return ?sub = Now (state_value ?sub)
        \<or> (\<exists>t. collect_content_return ?sub = Promise t (state_value ?sub))" by simp
    then have seg: "earliest_rejection (snd (flush (c, segs)) @ [collect_content_return ?sub]) = None"
      and val: "\<And>hx. state_value (fst (flush (c, segs)), snd (flush (c, segs)) @ [collect_content_return ?sub], hx)
          = squash_step (state_value (c, segs, ha)) (state_value ?sub)"
      using fr
      by (auto simp: earliest_rejection_append state_value_flush_snoc [where hb = ha]
          state_value_flush_snoc_Promise [where hb = ha])
    from "3.IH"(4) [OF _ w2 r2 seg] True
    show ?thesis
      by (simp add: val s2 l all_entries_def eventual_document_order_def per_channel_append squash_step_assoc)
  next
    case False
    have "well_timed [Node ?n]" "no_rejection [Node ?n]" using "3.prems" by simp_all
    from async_content [OF this, of ty "(0, empty_content)"]
    obtain t where t: "collect_content_async [Node ?n] ty (0, empty_content)
        = Inr (t, per_channel (eventual_fragments ty [Node ?n]))"
      by auto
    have seg: "earliest_rejection (snd (flush (c, segs)) @
        [async_call (collect_content_async [Node ?n] ty (0, empty_content))]) = None"
      using fr by (simp add: t async_call_def earliest_rejection_append del: collect_content_async.simps)
    from "3.IH"(1) [OF _ w2 r2 seg] False
    show ?thesis
      by (simp add: t async_call_def state_value_flush_snoc_Promise [where hb = ha]
          eventual_document_order_def per_channel_append squash_step_assoc
          del: collect_content_async.simps)
  qed
qed

text \<open>
  Awaiting a payload whose pending work is the render functions of its payloads, none of
  them rejected, gives the per-channel concatenation of all fragments in document order,
  whenever the promises settle.
\<close>

lemma suspending_collection_well_timed:
  "well_timed [Node this] \<Longrightarrow> no_rejection [Node this] \<Longrightarrow>
   \<exists>t. payload_then this = Inr (t, eventual_document_order (ptype this) [Node this])"
proof -
  assume w: "well_timed [Node this]" and r: "no_rejection [Node this]"
  let ?st = "collect_content_loop [Node this] (ptype this) empty_content [] False"
  from loop_well_timed [OF w r, of "[]" "ptype this" empty_content False]
  have s1: "earliest_rejection (fst (snd ?st)) = None"
    and s2: "state_value ?st = eventual_document_order (ptype this) [Node this]" by simp_all
  have "?st = (fst ?st, fst (snd ?st), snd (snd ?st))" by simp
  with return_fulfilled [OF s1, of "fst ?st" "snd (snd ?st)"]
  have "collect_content_return ?st = Now (state_value ?st)
      \<or> (\<exists>t. collect_content_return ?st = Promise t (state_value ?st))" by simp
  then show ?thesis
    by (auto simp: payload_then_def collect_content_def s2)
qed

section \<open>Compaction and pending work\<close>

lemmas eval_defs =
  collect_content_def collect_content_return_def flush_def empty_content_def
  Promise_all_def promise_then_def await_promises_def await_def entries_at_def async_call_def
  append_content_def squash_accumulated_content_def squash_step_def

lemmas build_defs =
  child_def new_Payload_def async_render_def finished_render_def failing_render_def
  compacting_render_def async_compacting_render_def push_def

lemmas compact_defs =
  compact_def to_compact_def compact_end_def splice_removed_def splice_result_def
  splice_start_def splice_count_def Let_def identity_transform_def chained_def
  queue_followup_def push_accumulated_content_def object_entries_def push_entry_def

lemma async_child:
  "child (new_Payload 0 None None None) (async_render 2 ''a'') None
     = Payload [Node (Payload [] Body (Some (Fulfils 2)) None [(2, [Str ''a''])] None 0)]
         Body None None [] None 0"
  by (simp add: build_defs)

lemma async_child_content:
  "collect_content [Node (Payload [] Body (Some (Fulfils t)) None [(t, [Str s])] None 0)] Body empty_content
     = Promise t \<lparr>head = [], body = s\<rparr>"
  by (simp add: eval_defs)

lemma async_child_compacted:
  "compact (Payload [Node (Payload [] Body (Some (Fulfils 2)) None [(2, [Str ''a''])] None 0)]
                  Body None None [] None 0) 0 None identity_transform
     = Payload [Node (Payload [] Body None None
                        [(2, [Node (Payload [Str ''a''] Body None None [] None 0)])] None 0)]
         Body None (Some [Fulfils 2]) [] None 0"
  by (simp add: compact_defs new_Payload_def push_def async_child_content)

text \<open>
  C3. A root with one asynchronous child, whose render function pushes \<^verbatim>\<open>"a"\<close>
  before its promise settles at time 2; \<^verbatim>\<open>collect()\<close> throws for it. After
  \<^verbatim>\<open>compact({ start: 0, fn: identity })\<close> the root has a followup that is not drained
  and its content in document order is still \<^verbatim>\<open>"a"\<close>, yet \<^verbatim>\<open>collect()\<close> returns
  empty content instead of throwing, and so does awaiting the root at once.
\<close>

theorem collect_ignores_followup:
  "collect (child (new_Payload 0 None None None) (async_render 2 ''a'') None) = Inl AsyncComponentError
   \<and> followup (compact (child (new_Payload 0 None None None) (async_render 2 ''a'') None) 0 None
                 identity_transform)
       = Some [Fulfils 2]
   \<and> eventual_document_order Body
        (out (compact (child (new_Payload 0 None None None) (async_render 2 ''a'') None) 0 None
                identity_transform))
       = \<lparr>head = [], body = ''a''\<rparr>
   \<and> collect (compact (child (new_Payload 0 None None None) (async_render 2 ''a'') None) 0 None
                identity_transform)
       = Inr \<lparr>head = [], body = []\<rparr>
   \<and> payload_then (compact (child (new_Payload 0 None None None) (async_render 2 ''a'') None) 0 None
                     identity_transform)
       = Inr (0, \<lparr>head = [], body = []\<rparr>)"
proof -
  have 1: "collect (Payload [Node (Payload [] Body (Some (Fulfils 2)) None [(2, [Str ''a''])] None 0)]
                  Body None None [] None 0) = Inl AsyncComponentError"
    by (simp add: collect_eq)
  have 2: "eventual_document_order Body
        (out (Payload [Node (Payload [] Body None None
                        [(2, [Node (Payload [Str ''a''] Body None None [] None 0)])] None 0)]
         Body None (Some [Fulfils 2]) [] None 0))
       = \<lparr>head = [], body = ''a''\<rparr>"
    by (simp add: eventual_document_order_def all_entries_def per_channel_def channel_def)
  have 3: "collect (Payload [Node (Payload [] Body None None
                        [(2, [Node (Payload [Str ''a''] Body None None [] None 0)])] None 0)]
         Body None (Some [Fulfils 2]) [] None 0) = Inr \<lparr>head = [], body = []\<rparr>"
    by (simp add: collect_eq document_order_def per_channel_def channel_def)
  have 4: "payload_then (Payload [Node (Payload [] Body None None
                        [(2, [Node (Payload [Str ''a''] Body None None [] None 0)])] None 0)]
         Body None (Some [Fulfils 2]) [] None 0) = Inr (0, \<lparr>head = [], body = []\<rparr>)"
    by (simp add: payload_then_def eval_defs)
  show ?thesis
    unfolding async_child async_child_compacted using 1 2 3 4 by simp
qed

lemma two_children:
  "child (child (new_Payload 0 None None None) (async_render 2 ''A'') None)
     (compacting_render 3 ''a'') None
   = Payload
       [Node (Payload [] Body (Some (Fulfils 2)) None [(2, [Str ''A''])] None 0),
        Node (Payload
               [Node (Payload [] Body None None
                        [(3, [Node (Payload [Str ''a''] Body None None [] None 0)])] None 0)]
               Body None (Some [Fulfils 3]) [] None 0)]
       Body None None [] None 0"
  by (simp add: build_defs compact_defs async_child_content)

lemma compacting_child:
  "child (new_Payload 0 None None None) (async_compacting_render 1 3 ''a'') None
   = Payload
       [Node (Payload
               [Node (Payload [] Body None None
                        [(3, [Node (Payload [Str ''a''] Body None None [] None 0)])] None 0)]
               Body (Some (Fulfils 1)) (Some [Fulfils 3]) [] None 0)]
       Body None None [] None 0"
  by (simp add: build_defs compact_defs async_child_content)

text \<open>
  C2. A root with an asynchronous child A and a synchronous child that renders an
  asynchronous grandchild and compacts it with the identity transform. In document order
  the body is \<^verbatim>\<open>"Aa"\<close>, but awaiting the root gives \<^verbatim>\<open>"A"\<close>:
  \<^verbatim>\<open>#collect_content\<close> enters the synchronous child without awaiting its followup and
  finds the placeholder empty. Where the compacting child is itself asynchronous,
  \<^verbatim>\<open>#collect_content_async\<close> awaits the followup and the content is there. Without
  compaction two asynchronous children A, B give A's content before B's although B
  settles first; and when a render function is rejected, so is the awaited result.
\<close>

theorem await_skips_followup:
  "eventual_document_order Body
      [Node (child (child (new_Payload 0 None None None) (async_render 2 ''A'') None)
               (compacting_render 3 ''a'') None)]
     = \<lparr>head = [], body = ''Aa''\<rparr>
   \<and> payload_then (child (child (new_Payload 0 None None None) (async_render 2 ''A'') None)
                     (compacting_render 3 ''a'') None)
       = Inr (2, \<lparr>head = [], body = ''A''\<rparr>)
   \<and> payload_then (child (new_Payload 0 None None None) (async_compacting_render 1 3 ''a'') None)
       = Inr (3, \<lparr>head = [], body = ''a''\<rparr>)
   \<and> payload_then (child (child (new_Payload 0 None None None) (async_render 5 ''A'') None)
                     (async_render 2 ''B'') None)
       = Inr (5, \<lparr>head = [], body = ''AB''\<rparr>)
   \<and> payload_then (child (child (new_Payload 0 None None None) (async_render 5 ''A'') None)
                     (failing_render 2) None)
       = Inl 2"
proof -
  have 1: "eventual_document_order Body
      [Node (Payload
       [Node (Payload [] Body (Some (Fulfils 2)) None [(2, [Str ''A''])] None 0),
        Node (Payload
               [Node (Payload [] Body None None
                        [(3, [Node (Payload [Str ''a''] Body None None [] None 0)])] None 0)]
               Body None (Some [Fulfils 3]) [] None 0)]
       Body None None [] None 0)] = \<lparr>head = [], body = ''Aa''\<rparr>"
    by (simp add: eventual_document_order_def all_entries_def per_channel_def channel_def)
  have 2: "payload_then (Payload
       [Node (Payload [] Body (Some (Fulfils 2)) None [(2, [Str ''A''])] None 0),
        Node (Payload
               [Node (Payload [] Body None None
                        [(3, [Node (Payload [Str ''a''] Body None None [] None 0)])] None 0)]
               Body None (Some [Fulfils 3]) [] None 0)]
       Body None None [] None 0) = Inr (2, \<lparr>head = [], body = ''A''\<rparr>)"
    by (simp add: payload_then_def eval_defs)
  have 3: "payload_then (Payload
       [Node (Payload
               [Node (Payload [] Body None None
                        [(3, [Node (Payload [Str ''a''] Body None None [] None 0)])] None 0)]
               Body (Some (Fulfils 1)) (Some [Fulfils 3]) [] None 0)]
       Body None None [] None 0) = Inr (3, \<lparr>head = [], body = ''a''\<rparr>)"
    by (simp add: payload_then_def eval_defs)
  have 4: "payload_then (child (child (new_Payload 0 None None None) (async_render 5 ''A'') None)
                     (async_render 2 ''B'') None)
       = Inr (5, \<lparr>head = [], body = ''AB''\<rparr>)"
    by (simp add: build_defs payload_then_def eval_defs)
  have 5: "payload_then (child (child (new_Payload 0 None None None) (async_render 5 ''A'') None)
                     (failing_render 2) None)
       = Inl 2"
    by (simp add: build_defs payload_then_def eval_defs)
  show ?thesis
    unfolding two_children compacting_child using 1 2 3 4 5 by simp
qed

text \<open>
  C5. The range \<^verbatim>\<open>["ab"]\<close> is collected at once and the transform returns a promise:
  \<^verbatim>\<open>compact\<close> hands that promise to \<^verbatim>\<open>#push_accumulated_content\<close>, so no followup is
  queued and the placeholder stays empty, now and later. With the same transform and a
  range that holds an asynchronous child, the promise branch queues the followup and the
  placeholder receives the leaf once the transform's promise has settled.
\<close>

theorem compact_drops_suspending_transform:
  "collect_content (to_compact (Payload [Str ''ab''] Body None None [] None 0) 0 (Some 1)) Body empty_content
       = Now \<lparr>head = [], body = ''ab''\<rparr>
   \<and> is_Promise (Promise 3 (HeadFirst, \<lparr>head = [], body = ''ab''\<rparr>))
   \<and> compact (Payload [Str ''ab''] Body None None [] None 0) 0 (Some 1) (\<lambda>c. Promise 3 (HeadFirst, c))
       = Payload [Node (Payload [] Body None None [] None 0)] Body None None [] None 0
   \<and> compact (Payload [Node (Payload [] Body (Some (Fulfils 2)) None [(2, [Str ''ab''])] None 0)]
                 Body None None [] None 0) 0 (Some 1) (\<lambda>c. Promise 3 (HeadFirst, c))
       = Payload [Node (Payload [] Body None None
                          [(3, [Node (Payload [Str ''ab''] Body None None [] None 0)])] None 0)]
           Body None (Some [Fulfils 3]) [] None 0"
proof -
  have 1: "collect_content (to_compact (Payload [Str ''ab''] Body None None [] None 0) 0 (Some 1)) Body empty_content
       = Now \<lparr>head = [], body = ''ab''\<rparr>"
    by (simp add: to_compact_def compact_end_def splice_removed_def splice_start_def
        splice_count_def eval_defs)
  have 2: "compact (Payload [Str ''ab''] Body None None [] None 0) 0 (Some 1) (\<lambda>c. Promise 3 (HeadFirst, c))
       = Payload [Node (Payload [] Body None None [] None 0)] Body None None [] None 0"
    by (simp add: compact_defs new_Payload_def eval_defs)
  have 3: "compact (Payload [Node (Payload [] Body (Some (Fulfils 2)) None [(2, [Str ''ab''])] None 0)]
                 Body None None [] None 0) 0 (Some 1) (\<lambda>c. Promise 3 (HeadFirst, c))
       = Payload [Node (Payload [] Body None None
                          [(3, [Node (Payload [Str ''ab''] Body None None [] None 0)])] None 0)]
           Body None (Some [Fulfils 3]) [] None 0"
    by (simp add: compact_defs new_Payload_def push_def async_child_content)
  from 1 2 3 show ?thesis by simp
qed

section \<open>Properties of the shared state\<close>

lemma css_add_entries:
  assumes "TreeState_css h st = Some s" and "cells h s = Some (SetObj xs)"
  shows "css_entries (css_add h st x) st = add_member xs x"
    and "TreeState_css (css_add h st x) st = Some s"
    and "cells (css_add h st x) s = Some (SetObj (add_member xs x))"
    and "a \<noteq> s \<Longrightarrow> cells (css_add h st x) a = cells h a"
proof -
  from assms have ne: "st \<noteq> s"
    by (auto simp: TreeState_css_def split: option.splits obj.splits)
  show "css_entries (css_add h st x) st = add_member xs x"
    using assms ne
    by (simp add: css_entries_def css_add_def Set_add_def Set_members_def store_def TreeState_css_def)
  show "TreeState_css (css_add h st x) st = Some s"
    using assms ne
    by (simp add: css_add_def Set_add_def store_def TreeState_css_def)
  show "cells (css_add h st x) s = Some (SetObj (add_member xs x))"
    using assms by (simp add: css_add_def Set_add_def store_def)
  show "a \<noteq> s \<Longrightarrow> cells (css_add h st x) a = cells h a"
    using assms by (simp add: css_add_def Set_add_def store_def)
qed

text \<open>
  C7, as amended. The stylesheet set holds references: adding a record that is already
  in the set leaves one entry for it, and adding two different records with the same
  hash, neither of them in the set, adds two entries for that hash.
\<close>

theorem css_deduplicated_by_reference:
  assumes "TreeState_css h st = Some s" and "cells h s = Some (SetObj xs)"
    and "cells h a = Some (StyleObj sa)" and "cells h b = Some (StyleObj sb)"
    and "hash sa = k" and "hash sb = k"
    and "a \<noteq> b" and "a \<notin> set xs" and "b \<notin> set xs"
  shows "css_entries (css_add (css_add h st a) st a) st = xs @ [a]
     \<and> css_entries (css_add (css_add h st a) st b) st = xs @ [a, b]
     \<and> entries_with_hash (css_add (css_add h st a) st b) st k = entries_with_hash h st k @ [a, b]"
proof -
  let ?h1 = "css_add h st a"
  note 1 = css_add_entries [OF assms(1,2), where x = a]
  have as: "a \<noteq> s" and bs: "b \<noteq> s" using assms(2,3,4) by auto
  have e1: "css_entries (css_add ?h1 st a) st = xs @ [a]"
    using css_add_entries(1) [OF 1(2) 1(3), where x = a] assms(8) by (simp add: add_member_def)
  have e2: "css_entries (css_add ?h1 st b) st = xs @ [a, b]"
    using css_add_entries(1) [OF 1(2) 1(3), where x = b] assms(7,8,9) by (auto simp: add_member_def)
  have c: "cells (css_add ?h1 st b) x = cells h x" if "x \<noteq> s" for x
    using css_add_entries(4) [OF 1(2) 1(3) that, where x = b] 1(4) [OF that] by simp
  have same: "(case cells (css_add ?h1 st b) x of Some (StyleObj z) \<Rightarrow> hash z = k | _ \<Rightarrow> False)
      = (case cells h x of Some (StyleObj z) \<Rightarrow> hash z = k | _ \<Rightarrow> False)" for x
  proof (cases "x = s")
    case True
    then show ?thesis
      using assms(2) css_add_entries(3) [OF 1(2) 1(3), where x = b] by simp
  next
    case False
    then show ?thesis by (simp add: c)
  qed
  have h0: "css_entries h st = xs"
    using assms(1,2) by (simp add: css_entries_def Set_members_def)
  have "entries_with_hash (css_add ?h1 st b) st k
      = filter (\<lambda>x. case cells h x of Some (StyleObj z) \<Rightarrow> hash z = k | _ \<Rightarrow> False) (xs @ [a, b])"
    unfolding entries_with_hash_def e2 same ..
  also have "\<dots> = entries_with_hash h st k @ [a, b]"
    using assms(3-6) by (simp add: entries_with_hash_def h0)
  finally show ?thesis using e1 e2 by simp
qed

lemma two_styles_cells:
  "cells two_styles_heap 1 = Some (SetObj [])"
  "cells two_styles_heap 5 = Some (StateObj 0 1 4)"
  "cells two_styles_heap 6 = Some (StyleObj \<lparr>hash = ''h'', code = ''a''\<rparr>)"
  "cells two_styles_heap 7 = Some (StyleObj \<lparr>hash = ''h'', code = ''b''\<rparr>)"
  "cells two_styles_heap (Suc 0) = Some (SetObj [])"
  by (simp_all add: two_styles_heap_def new_TreeState_def props_id_generator_def new_Set_def
      new_TreeHeadState_def alloc_def empty_heap_def Let_def)

theorem css_deduplicated_by_reference_witness:
  "css_entries (css_add (css_add two_styles_heap 5 6) 5 6) 5 = [6]
   \<and> css_entries (css_add (css_add two_styles_heap 5 6) 5 7) 5 = [6, 7]
   \<and> entries_with_hash (css_add (css_add two_styles_heap 5 6) 5 7) 5 ''h'' = [6, 7]"
proof -
  have c: "TreeState_css two_styles_heap 5 = Some 1"
    by (simp add: TreeState_css_def two_styles_cells)
  have e: "entries_with_hash two_styles_heap 5 ''h'' = []"
    by (simp add: entries_with_hash_def css_entries_def c Set_members_def two_styles_cells)
  show ?thesis
    using css_deduplicated_by_reference [OF c two_styles_cells(1) two_styles_cells(3) two_styles_cells(4),
        of "''h''"] e
    by simp
qed

text \<open>
  C7, as stated, fails: two records with the same hash and different code are two
  entries for that hash.
\<close>

theorem css_same_hash_counterexample:
  "cells two_styles_heap 6 = Some (StyleObj \<lparr>hash = ''h'', code = ''a''\<rparr>)
   \<and> cells two_styles_heap 7 = Some (StyleObj \<lparr>hash = ''h'', code = ''b''\<rparr>)
   \<and> length (entries_with_hash (css_add (css_add two_styles_heap 5 6) 5 7) 5 ''h'') = 2"
proof -
  have s1: "cells (css_add two_styles_heap 5 6) = (cells two_styles_heap)(1 \<mapsto> SetObj [6])"
    by (simp add: css_add_def TreeState_css_def Set_add_def store_def add_member_def two_styles_cells)
  have s2: "cells (css_add (css_add two_styles_heap 5 6) 5 7) = (cells two_styles_heap)(1 \<mapsto> SetObj [6, 7])"
    by (simp add: css_add_def TreeState_css_def Set_add_def store_def add_member_def two_styles_cells s1)
  show ?thesis
    by (simp add: entries_with_hash_def css_entries_def TreeState_css_def Set_members_def s2
        two_styles_cells)
qed

text \<open>
  C8. \<^verbatim>\<open>TreeState.copy()\<close> on a new TreeState gives a new TreeState with a new
  TreeHeadState and a new stylesheet set, but the copy's \<^verbatim>\<open>#title\<close> is the title
  record of the original: assigning a winning title through the copy changes the title
  read through the original.
\<close>

theorem copy_shares_title:
  "(case TreeState_copy (snd (new_TreeState empty_heap [])) 5 of
      Some (cp, h) \<Rightarrow>
        cp \<noteq> 5
        \<and> TreeState_head h cp \<noteq> TreeState_head h 5
        \<and> TreeState_css h cp \<noteq> TreeState_css h 5
        \<and> title_of_state h 5 = Some \<lparr>path = [], tvalue = []\<rparr>
        \<and> title_of_state (assign_title h cp \<lparr>path = [0], tvalue = ''copy''\<rparr>) cp
            = Some \<lparr>path = [0], tvalue = ''copy''\<rparr>
        \<and> title_of_state (assign_title h cp \<lparr>path = [0], tvalue = ''copy''\<rparr>) 5
            = Some \<lparr>path = [0], tvalue = ''copy''\<rparr>
    | None \<Rightarrow> False)"
  by (simp add: TreeState_copy_def new_TreeState_def props_id_generator_def new_Set_def
      new_TreeHeadState_def alloc_def empty_heap_def Let_def Set_members_def TreeHeadState_copy_def
      store_def TreeState_head_def TreeState_css_def title_of_state_def assign_title_def
      read_title_def TreeHeadState_title_def TreeHeadState_set_title_def initial_title_def
      set_title_lexord)

end
